theory Spec2Isabelle
  imports Main
begin

section \<open>The option parser of \<^verbatim>\<open>opt-parse.h\<close>\<close>

text \<open>
  The header defines one class, \<^verbatim>\<open>Opt\<close>, with a constructor and the static function
  \<^verbatim>\<open>parseCmdLine\<close>. The embedding follows the code statement by statement.

  Three things come from the C++ standard library and are not part of the repository;
  they are type and function parameters of the model:
  \<^item> \<open>'r\<close> stands for \<^verbatim>\<open>std::regex\<close> and \<open>'m\<close> for \<^verbatim>\<open>std::cmatch\<close>;
  \<^item> \<open>regex :: string \<Rightarrow> 'r option\<close> stands for the constructor of \<^verbatim>\<open>std::regex\<close>
    from a pattern string (\<open>None\<close>: it throws \<^verbatim>\<open>std::regex_error\<close>);
  \<^item> \<open>regex_match :: string \<Rightarrow> 'r \<Rightarrow> 'm option\<close> stands for
    \<^verbatim>\<open>std::regex_match(s, results, r)\<close>, which by the standard succeeds only when
    the regular expression matches the entire character sequence \<open>s\<close>
    (\<open>Some results\<close>: it returned true and filled \<^verbatim>\<open>results\<close>).

  A handler is a \<^verbatim>\<open>std::function<void(std::cmatch const&)>\<close> that writes to
  variables of the caller. \<open>'s\<close> is the type of that caller-owned state and a handler
  is a function \<open>'m \<Rightarrow> 's \<Rightarrow> 's\<close>. Handlers are taken to return normally, and
  \<^verbatim>\<open>std::regex_match\<close> is taken to return rather than throw. A handler that keeps a
  state of its own is the subject of a second embedding further down.
\<close>

subsection \<open>Data\<close>

text \<open>
  The private members \<^verbatim>\<open>r_\<close>, \<^verbatim>\<open>help_\<close> and \<^verbatim>\<open>h_\<close> of the class. A name
  cannot end in an underscore here, so the fields carry the prefix \<open>opt_\<close> instead.
\<close>

record ('r, 'm, 's) Opt =
  opt_r :: 'r
  opt_help :: string
  opt_h :: "'m \<Rightarrow> 's \<Rightarrow> 's"

text \<open>
  What a call of \<^verbatim>\<open>parseCmdLine\<close> can change: the caller-owned state the handlers
  write to, and the two output streams. \<open>invoked\<close> is a log that the model adds: every
  call \<^verbatim>\<open>next->h_(results)\<close> appends the position of the descriptor in the table and
  the match results it was given, so that theorems can speak of which handlers ran, with
  what, and in which order.
\<close>

record ('m, 's) world =
  caller :: 's
  invoked :: "(nat \<times> 'm) list"
  cout :: string
  cerr :: string

definition endl :: string where
  "endl = [CHR 0x0A]"

subsection \<open>The constructor\<close>

text \<open>
  \<^verbatim>\<open>Opt(pattern, help, handler) : r_(pattern), help_("  " + pattern + ":\t" + help),
  h_(handler)\<close>. Building \<^verbatim>\<open>r_\<close> compiles the pattern and may throw.
\<close>

definition Opt ::
  "(string \<Rightarrow> 'r option) \<Rightarrow> string \<Rightarrow> string \<Rightarrow> ('m \<Rightarrow> 's \<Rightarrow> 's) \<Rightarrow> ('r, 'm, 's) Opt option" where
  "Opt regex pattern help handler =
     (case regex pattern of
        None \<Rightarrow> None
      | Some r \<Rightarrow>
          Some \<lparr>opt_r = r, opt_help = ''  '' @ pattern @ '':'' @ [CHR 0x09] @ help, opt_h = handler\<rparr>)"

subsection \<open>\<^verbatim>\<open>parseCmdLine\<close>\<close>

text \<open>The call \<^verbatim>\<open>next->h_(results)\<close>, with \<^verbatim>\<open>next\<close> at position \<open>i\<close> of the table.\<close>

definition invoke :: "('r, 'm, 's) Opt list \<Rightarrow> nat \<Rightarrow> 'm \<Rightarrow> ('m, 's) world \<Rightarrow> ('m, 's) world" where
  "invoke opts i results w =
     w\<lparr>caller := opt_h (opts ! i) results (caller w), invoked := invoked w @ [(i, results)]\<rparr>"

text \<open>
  The inner loop (lines 74 to 88):
  \<^verbatim>\<open>
  bool found = false;
  auto next = opts.begin();
  while( !found && next != opts.end() ) {
    std::cmatch results;
    if( std::regex_match(argv[argi], results, next->r_) ) { found = true; next->h_(results); }
    else { next++; }
  }
  \<close>
  The iterator is its distance from \<^verbatim>\<open>opts.begin()\<close>. It starts at 0 and moves one
  step at a time, so \<^verbatim>\<open>next != opts.end()\<close> is \<open>next < length opts\<close>.
\<close>

function scan ::
  "(string \<Rightarrow> 'r \<Rightarrow> 'm option) \<Rightarrow> string \<Rightarrow> ('r, 'm, 's) Opt list \<Rightarrow> bool \<Rightarrow> nat \<Rightarrow>
     ('m, 's) world \<Rightarrow> bool \<times> ('m, 's) world" where
  "scan regex_match token opts found next w =
     (if \<not> found \<and> next < length opts then
        (case regex_match token (opt_r (opts ! next)) of
           Some results \<Rightarrow> scan regex_match token opts True next (invoke opts next results w)
         | None \<Rightarrow> scan regex_match token opts found (next + 1) w)
      else (found, w))"
  by pat_completeness auto
termination
  by (relation "measure (\<lambda>(regex_match, token, opts, found, next, w).
        (length opts - next) + (if found then 0 else 1))") auto

declare scan.simps [simp del]

text \<open>
  \<^verbatim>\<open>argv[i]\<close> for an \<^verbatim>\<open>argv\<close> that holds \<open>length argv\<close> strings. Reading past them
  is undefined behaviour in C++; the model stops with \<open>None\<close>.
\<close>

definition argv_at :: "string list \<Rightarrow> int \<Rightarrow> string option" where
  "argv_at argv i = (if 0 \<le> i \<and> i < int (length argv) then Some (argv ! nat i) else None)"

text \<open>
  The loop over the arguments (lines 66 to 95), from \<^verbatim>\<open>argi\<close> on. \<^verbatim>\<open>argc\<close> and
  \<^verbatim>\<open>argi\<close> are C++ \<^verbatim>\<open>int\<close>s; \<^verbatim>\<open>argi\<close> is incremented only while it is below
  \<^verbatim>\<open>argc\<close>, so it cannot overflow and unbounded integers model it exactly.
  \<^verbatim>\<open>strcmp(argv[argi], "--help") == 0\<close> is equality of the two C strings.
\<close>

function arg_loop ::
  "(string \<Rightarrow> 'r \<Rightarrow> 'm option) \<Rightarrow> int \<Rightarrow> string list \<Rightarrow> ('r, 'm, 's) Opt list \<Rightarrow> int \<Rightarrow> bool \<Rightarrow>
     ('m, 's) world \<Rightarrow> (bool \<times> ('m, 's) world) option" where
  "arg_loop regex_match argc argv opts argi showUsage w =
     (if argi < argc then
        (case argv_at argv argi of
           None \<Rightarrow> None
         | Some token \<Rightarrow>
             if token = ''--help'' then
               arg_loop regex_match argc argv opts (argi + 1) True w
             else
               (case scan regex_match token opts False 0 w of
                  (found, w') \<Rightarrow>
                    if \<not> found then
                      arg_loop regex_match argc argv opts (argi + 1) True
                        (w'\<lparr>cerr := cerr w' @ ''Unrecognised option: '' @ token @ endl\<rparr>)
                    else arg_loop regex_match argc argv opts (argi + 1) showUsage w'))
      else Some (showUsage, w))"
  by pat_completeness auto
termination
  by (relation "measure (\<lambda>(regex_match, argc, argv, opts, argi, showUsage, w). nat (argc - argi))") auto

declare arg_loop.simps [simp del]

text \<open>
  The whole function. After the loop, lines 97 to 107:
  \<^verbatim>\<open>
  if( showUsage ) {
    std::cout << "Usage: " << argv[0] << std::endl;
    for( auto& opt : opts ) { std::cout << opt.help_ << std::endl; }
    std::cout << std::endl;
  }
  return !showUsage;
  \<close>
\<close>

definition parseCmdLine ::
  "(string \<Rightarrow> 'r \<Rightarrow> 'm option) \<Rightarrow> int \<Rightarrow> string list \<Rightarrow> ('r, 'm, 's) Opt list \<Rightarrow>
     ('m, 's) world \<Rightarrow> (bool \<times> ('m, 's) world) option" where
  "parseCmdLine regex_match argc argv opts w =
     (case arg_loop regex_match argc argv opts 1 False w of
        None \<Rightarrow> None
      | Some (showUsage, w1) \<Rightarrow>
          if showUsage then
            (case argv_at argv 0 of
               None \<Rightarrow> None
             | Some prog \<Rightarrow>
                 let w2 = w1\<lparr>cout := cout w1 @ ''Usage: '' @ prog @ endl\<rparr>;
                     w3 = foldl (\<lambda>w opt. w\<lparr>cout := cout w @ opt_help opt @ endl\<rparr>) w2 opts;
                     w4 = w3\<lparr>cout := cout w3 @ endl\<rparr>
                 in Some (\<not> showUsage, w4))
          else Some (\<not> showUsage, w1))"

subsection \<open>The table as an object: handlers with a state of their own\<close>

text \<open>
  Above, the table is a value and a handler a function of the caller's state. In C++ the
  handler \<^verbatim>\<open>h_\<close> is a \<^verbatim>\<open>std::function\<close> object stored in the table, and it holds a
  copy of the callable it was built from. \<^verbatim>\<open>std::function::operator()\<close> is a
  \<^verbatim>\<open>const\<close> member that runs the stored callable as a non-constant object, so the call
  \<^verbatim>\<open>next->h_(results)\<close> on line 82 is allowed through the constant reference
  \<^verbatim>\<open>opts\<close> and still lets a callable with members of its own change them, for example
  \<^verbatim>\<open>[&flag, n = 0](std::cmatch const&) mutable { ++n; flag = true; }\<close>.

  To speak of the table after the call, the same code is embedded once more with the
  table in the state. A descriptor now holds the code of its callable, \<open>st_h\<close>, and the
  state the callable keeps, \<open>st_target\<close> of type \<open>'h\<close>; running the code on the match
  results, the kept state and the caller's state gives the new kept state and the new
  caller's state. Each function returns the table next to what it returned before.
  \<open>parseCmdLine_st_stateless\<close> below shows that for callables that keep no state
  this embedding computes what the first one does.
\<close>

record ('r, 'm, 'h, 's) Opt_st =
  st_r :: 'r
  st_help :: string
  st_h :: "'m \<Rightarrow> 'h \<Rightarrow> 's \<Rightarrow> 'h \<times> 's"
  st_target :: 'h

text \<open>The call \<^verbatim>\<open>next->h_(results)\<close>: the callable stored at position \<open>i\<close> runs.\<close>

definition invoke_st ::
  "('r, 'm, 'h, 's) Opt_st list \<Rightarrow> nat \<Rightarrow> 'm \<Rightarrow> ('m, 's) world \<Rightarrow>
     ('r, 'm, 'h, 's) Opt_st list \<times> ('m, 's) world" where
  "invoke_st opts i results w =
     (case st_h (opts ! i) results (st_target (opts ! i)) (caller w) of
        (target', caller') \<Rightarrow>
          (opts[i := (opts ! i)\<lparr>st_target := target'\<rparr>],
           w\<lparr>caller := caller', invoked := invoked w @ [(i, results)]\<rparr>))"

text \<open>The inner loop, lines 74 to 88.\<close>

function scan_st ::
  "(string \<Rightarrow> 'r \<Rightarrow> 'm option) \<Rightarrow> string \<Rightarrow> ('r, 'm, 'h, 's) Opt_st list \<Rightarrow> bool \<Rightarrow> nat \<Rightarrow>
     ('m, 's) world \<Rightarrow> bool \<times> ('r, 'm, 'h, 's) Opt_st list \<times> ('m, 's) world" where
  "scan_st regex_match token opts found next w =
     (if \<not> found \<and> next < length opts then
        (case regex_match token (st_r (opts ! next)) of
           Some results \<Rightarrow>
             (case invoke_st opts next results w of
                (opts', w') \<Rightarrow> scan_st regex_match token opts' True next w')
         | None \<Rightarrow> scan_st regex_match token opts found (next + 1) w)
      else (found, opts, w))"
  by pat_completeness auto
termination
  by (relation "measure (\<lambda>(regex_match, token, opts, found, next, w).
        if found then 0 else 1 + (length opts - next))")
    (auto simp: invoke_st_def split: prod.splits)

declare scan_st.simps [simp del]

text \<open>The loop over the arguments, lines 66 to 95.\<close>

function arg_loop_st ::
  "(string \<Rightarrow> 'r \<Rightarrow> 'm option) \<Rightarrow> int \<Rightarrow> string list \<Rightarrow> ('r, 'm, 'h, 's) Opt_st list \<Rightarrow> int \<Rightarrow> bool \<Rightarrow>
     ('m, 's) world \<Rightarrow> (bool \<times> ('r, 'm, 'h, 's) Opt_st list \<times> ('m, 's) world) option" where
  "arg_loop_st regex_match argc argv opts argi showUsage w =
     (if argi < argc then
        (case argv_at argv argi of
           None \<Rightarrow> None
         | Some token \<Rightarrow>
             if token = ''--help'' then
               arg_loop_st regex_match argc argv opts (argi + 1) True w
             else
               (case scan_st regex_match token opts False 0 w of
                  (found, opts', w') \<Rightarrow>
                    if \<not> found then
                      arg_loop_st regex_match argc argv opts' (argi + 1) True
                        (w'\<lparr>cerr := cerr w' @ ''Unrecognised option: '' @ token @ endl\<rparr>)
                    else arg_loop_st regex_match argc argv opts' (argi + 1) showUsage w'))
      else Some (showUsage, opts, w))"
  by pat_completeness auto
termination
  by (relation "measure (\<lambda>(regex_match, argc, argv, opts, argi, showUsage, w). nat (argc - argi))") auto

declare arg_loop_st.simps [simp del]

text \<open>The whole function, with lines 97 to 107 after the loop.\<close>

definition parseCmdLine_st ::
  "(string \<Rightarrow> 'r \<Rightarrow> 'm option) \<Rightarrow> int \<Rightarrow> string list \<Rightarrow> ('r, 'm, 'h, 's) Opt_st list \<Rightarrow>
     ('m, 's) world \<Rightarrow> (bool \<times> ('r, 'm, 'h, 's) Opt_st list \<times> ('m, 's) world) option" where
  "parseCmdLine_st regex_match argc argv opts w =
     (case arg_loop_st regex_match argc argv opts 1 False w of
        None \<Rightarrow> None
      | Some (showUsage, opts1, w1) \<Rightarrow>
          if showUsage then
            (case argv_at argv 0 of
               None \<Rightarrow> None
             | Some prog \<Rightarrow>
                 let w2 = w1\<lparr>cout := cout w1 @ ''Usage: '' @ prog @ endl\<rparr>;
                     w3 = foldl (\<lambda>w opt. w\<lparr>cout := cout w @ st_help opt @ endl\<rparr>) w2 opts1;
                     w4 = w3\<lparr>cout := cout w3 @ endl\<rparr>
                 in Some (\<not> showUsage, opts1, w4))
          else Some (\<not> showUsage, opts1, w1))"

text \<open>A descriptor whose callable keeps no state, as a descriptor of the first embedding.\<close>

definition stateless :: "('r, 'm, unit, 's) Opt_st \<Rightarrow> ('r, 'm, 's) Opt" where
  "stateless d =
     \<lparr>opt_r = st_r d, opt_help = st_help d, opt_h = (\<lambda>results s. snd (st_h d results () s))\<rparr>"

subsection \<open>Notions used to state the properties\<close>

text \<open>
  The argument tokens of a call: \<^verbatim>\<open>argv[1]\<close> to \<^verbatim>\<open>argv[argc - 1]\<close>, the program name
  \<^verbatim>\<open>argv[0]\<close> left out.
\<close>

definition args :: "int \<Rightarrow> string list \<Rightarrow> string list" where
  "args argc argv = take (nat (argc - 1)) (tl argv)"

text \<open>
  All descriptors of the table whose pattern matches a token, in table order, each as its
  position and the match results.
\<close>

definition matches ::
  "(string \<Rightarrow> 'r \<Rightarrow> 'm option) \<Rightarrow> ('r, 'm, 's) Opt list \<Rightarrow> string \<Rightarrow> (nat \<times> 'm) list" where
  "matches regex_match opts token =
     List.map_filter (\<lambda>i. map_option (Pair i) (regex_match token (opt_r (opts ! i)))) [0..<length opts]"

text \<open>
  The handler calls a list of tokens is expected to cause: for each token other than
  \<^verbatim>\<open>--help\<close>, in order, the first entry of \<open>matches\<close> if there is one.
\<close>

definition handled ::
  "(string \<Rightarrow> 'r \<Rightarrow> 'm option) \<Rightarrow> ('r, 'm, 's) Opt list \<Rightarrow> string list \<Rightarrow> (nat \<times> 'm) list" where
  "handled regex_match opts tokens =
     concat (map (\<lambda>t. take 1 (matches regex_match opts t)) (filter (\<lambda>t. t \<noteq> ''--help'') tokens))"

text \<open>The effect of a sequence of handler calls on the caller-owned state.\<close>

definition run_handlers :: "('r, 'm, 's) Opt list \<Rightarrow> (nat \<times> 'm) list \<Rightarrow> 's \<Rightarrow> 's" where
  "run_handlers opts calls s = foldl (\<lambda>s (i, results). opt_h (opts ! i) results s) s calls"

text \<open>The diagnostics expected on standard error, and the usage listing as one string.\<close>

definition diagnostics ::
  "(string \<Rightarrow> 'r \<Rightarrow> 'm option) \<Rightarrow> ('r, 'm, 's) Opt list \<Rightarrow> string list \<Rightarrow> string" where
  "diagnostics regex_match opts tokens =
     concat (map (\<lambda>t. ''Unrecognised option: '' @ t @ endl)
       (filter (\<lambda>t. t \<noteq> ''--help'' \<and> matches regex_match opts t = []) tokens))"

definition usage :: "string \<Rightarrow> ('r, 'm, 's) Opt list \<Rightarrow> string" where
  "usage prog opts = ''Usage: '' @ prog @ endl @ concat (map (\<lambda>opt. opt_help opt @ endl) opts) @ endl"

text \<open>
  The effect of a sequence of calls of stored callables: on the caller's state and on
  the states the callables keep, listed in table order. \<open>handlers\<close> is the code of the
  callables, in table order.
\<close>

definition call_st ::
  "('m \<Rightarrow> 'h \<Rightarrow> 's \<Rightarrow> 'h \<times> 's) list \<Rightarrow> 's \<times> 'h list \<Rightarrow> nat \<times> 'm \<Rightarrow> 's \<times> 'h list" where
  "call_st handlers st c =
     (case st of (s, targets) \<Rightarrow>
        case c of (i, results) \<Rightarrow>
          case (handlers ! i) results (targets ! i) s of
            (target', s') \<Rightarrow> (s', targets[i := target']))"

definition run_calls_st ::
  "('m \<Rightarrow> 'h \<Rightarrow> 's \<Rightarrow> 'h \<times> 's) list \<Rightarrow> (nat \<times> 'm) list \<Rightarrow> 's \<times> 'h list \<Rightarrow> 's \<times> 'h list" where
  "run_calls_st handlers calls st = foldl (call_st handlers) st calls"

text \<open>
  What every step of the code keeps true of the table and the state it started from,
  with \<open>calls\<close> the calls of callables made since: patterns, help strings and the code of
  the callables are as they were, the caller's state and the kept states are what the
  calls made of them, the calls are logged, and the streams have only grown.
\<close>

definition frame ::
  "('r, 'm, 'h, 's) Opt_st list \<Rightarrow> ('m, 's) world \<Rightarrow> ('r, 'm, 'h, 's) Opt_st list \<Rightarrow> ('m, 's) world \<Rightarrow>
     (nat \<times> 'm) list \<Rightarrow> bool" where
  "frame opts w opts' w' calls \<longleftrightarrow>
     map st_r opts' = map st_r opts \<and> map st_help opts' = map st_help opts \<and>
     map st_h opts' = map st_h opts \<and>
     (caller w', map st_target opts') =
       run_calls_st (map st_h opts) calls (caller w, map st_target opts) \<and>
     invoked w' = invoked w @ calls \<and>
     (\<exists>out. cout w' = cout w @ out) \<and> (\<exists>err. cerr w' = cerr w @ err) \<and>
     list_all (\<lambda>(i, m). i < length opts) calls"

text \<open>
  The argument loop once more, by recursion over the list of tokens instead of an index
  into \<^verbatim>\<open>argv\<close>. It is only a stepping stone of the proofs: \<open>arg_loop_run_tokens\<close>
  below shows that \<open>arg_loop\<close> computes it.
\<close>

fun run_tokens ::
  "(string \<Rightarrow> 'r \<Rightarrow> 'm option) \<Rightarrow> ('r, 'm, 's) Opt list \<Rightarrow> string list \<Rightarrow> bool \<Rightarrow> ('m, 's) world \<Rightarrow>
     bool \<times> ('m, 's) world" where
  "run_tokens regex_match opts [] showUsage w = (showUsage, w)"
| "run_tokens regex_match opts (token # rest) showUsage w =
     (if token = ''--help'' then run_tokens regex_match opts rest True w
      else
        (case matches regex_match opts token of
           [] \<Rightarrow> run_tokens regex_match opts rest True
                   (w\<lparr>cerr := cerr w @ ''Unrecognised option: '' @ token @ endl\<rparr>)
         | (i, results) # _ \<Rightarrow> run_tokens regex_match opts rest showUsage (invoke opts i results w)))"

subsection \<open>Regular expressions and \<^verbatim>\<open>std::regex_match\<close>, from the specification\<close>

text \<open>
  Modelled from the spec: regular expressions (\<^verbatim>\<open>std::regex\<close>), which are library code
  and not in the repository. The specification calls a pattern a \<^emph>\<open>regular expression
  over a single token string\<close>. \<open>rexp\<close> is the abstract syntax of the regular expressions
  built from a character, \<^verbatim>\<open>.\<close> (any character but a line terminator), sequence,
  alternative \<^verbatim>\<open>|\<close>, repetition \<^verbatim>\<open>*\<close> and a group \<^verbatim>\<open>( )\<close>; \<open>Eps\<close> is the empty
  pattern.
\<close>

datatype rexp = Eps | Chr char | Any | Seq rexp rexp | Alt rexp rexp | Star rexp | Group rexp

text \<open>
  Modelled from the spec: what it is for a pattern to \<^emph>\<open>fully match\<close> a string, which the
  library decides and the repository does not define. The whole string is matched: by a
  character, if it is that one character; by a sequence, if it splits into a part that
  the first pattern matches as a whole and a part that the second does; by a repetition,
  if it is empty or splits into a non-empty part the repeated pattern matches and a rest
  the repetition matches.
\<close>

function matches_whole :: "rexp \<Rightarrow> string \<Rightarrow> bool" where
  "matches_whole Eps s = (s = [])"
| "matches_whole (Chr c) s = (s = [c])"
| "matches_whole Any s = (case s of [c] \<Rightarrow> c \<noteq> CHR 0x0A \<and> c \<noteq> CHR 0x0D | _ \<Rightarrow> False)"
| "matches_whole (Seq a b) s =
     list_ex (\<lambda>n. matches_whole a (take n s) \<and> matches_whole b (drop n s)) [0..<Suc (length s)]"
| "matches_whole (Alt a b) s = (matches_whole a s \<or> matches_whole b s)"
| "matches_whole (Star a) s =
     (s = [] \<or>
      list_ex (\<lambda>n. matches_whole a (take n s) \<and> matches_whole (Star a) (drop n s)) [1..<Suc (length s)])"
| "matches_whole (Group a) s = matches_whole a s"
  by pat_completeness auto
termination
  by (relation "inv_image (less_than <*lex*> less_than) (\<lambda>(r, s). (size r, length s))") auto

declare matches_whole.simps(4,6) [simp del]

text \<open>
  Modelled from the spec: a match of a part of the string only, which is what
  \<^verbatim>\<open>std::regex_search\<close> looks for and what the specification's \<^emph>\<open>fully matches\<close>
  excludes. Some run of consecutive characters of the string is matched as a whole.
\<close>

definition matches_part :: "rexp \<Rightarrow> string \<Rightarrow> bool" where
  "matches_part r s =
     list_ex (\<lambda>i. list_ex (\<lambda>n. matches_whole r (take n (drop i s))) [0..<Suc (length s - i)])
       [0..<Suc (length s)]"

text \<open>
  Modelled from the spec: \<^verbatim>\<open>std::regex_match\<close>, the library function called on line 79,
  which is not in the repository. It succeeds exactly when the pattern matches the whole
  string. How the match results are made up (the sub-matches of the groups) is left
  open: \<open>results\<close> is any function that gives them.
\<close>

definition std_regex_match :: "(rexp \<Rightarrow> string \<Rightarrow> 'm) \<Rightarrow> string \<Rightarrow> rexp \<Rightarrow> 'm option" where
  "std_regex_match results s r = (if matches_whole r s then Some (results r s) else None)"

text \<open>The pattern that is the characters of \<open>s\<close>, one after the other, and then \<open>r\<close>.\<close>

definition literal :: "string \<Rightarrow> rexp \<Rightarrow> rexp" where
  "literal s r = foldr (\<lambda>c. Seq (Chr c)) s r"

subsection \<open>A concrete instance\<close>

text \<open>
  To run the model on concrete command lines the library parameters need values. The
  instance below covers the two shapes of pattern that need no regular expression engine:
  \<^item> a pattern without metacharacters, such as \<^verbatim>\<open>--reverseFluxPolarity\<close>: it matches
    exactly the token equal to it;
  \<^item> such a pattern followed by the group \<^verbatim>\<open>(.*)\<close>, such as \<^verbatim>\<open>--server=(.*)\<close>: it
    matches every token that starts with the literal part and goes on without a line
    terminator (which \<^verbatim>\<open>.\<close> does not match), and captures the rest.

  The match results are the list of sub-matches: the whole match first, then the groups.
  \<open>regex_simple\<close> reads every other character of a pattern literally, so it agrees with
  \<^verbatim>\<open>std::regex\<close> on patterns whose literal part has no metacharacter; the examples
  use only such patterns.
\<close>

datatype simple_regex = Literal string | Literal_Group string

definition regex_simple :: "string \<Rightarrow> simple_regex option" where
  "regex_simple pattern =
     (let n = length pattern - 4 in
      if 4 \<le> length pattern \<and> drop n pattern = ''(.*)'' then Some (Literal_Group (take n pattern))
      else Some (Literal pattern))"

fun regex_match_simple :: "string \<Rightarrow> simple_regex \<Rightarrow> string list option" where
  "regex_match_simple s (Literal p) = (if s = p then Some [s] else None)"
| "regex_match_simple s (Literal_Group p) =
     (if take (length p) s = p \<and> CHR 0x0A \<notin> set (drop (length p) s) \<and> CHR 0x0D \<notin> set (drop (length p) s)
      then Some [s, drop (length p) s] else None)"

text \<open>
  The caller of the header's usage example: two of its variables, and the handlers that
  write them. \<open>sub_match m n\<close> is \<^verbatim>\<open>m[n]\<close>, which is empty past the last group.
\<close>

record settings =
  serverAddress :: string
  reverseFluxPolarity :: bool

definition sub_match :: "string list \<Rightarrow> nat \<Rightarrow> string" where
  "sub_match m n = (if n < length m then m ! n else [])"

definition set_serverAddress :: "string list \<Rightarrow> settings \<Rightarrow> settings" where
  "set_serverAddress m s = s\<lparr>serverAddress := sub_match m 1\<rparr>"

definition set_reverseFluxPolarity :: "string list \<Rightarrow> settings \<Rightarrow> settings" where
  "set_reverseFluxPolarity m s = s\<lparr>reverseFluxPolarity := True\<rparr>"

text \<open>A table is written as the constructor calls that build it.\<close>

definition build ::
  "(string \<times> string \<times> (string list \<Rightarrow> settings \<Rightarrow> settings)) list \<Rightarrow>
     (simple_regex, string list, settings) Opt list" where
  "build table = List.map_filter (\<lambda>(pattern, help, handler). Opt regex_simple pattern help handler) table"

definition example_table :: "(string \<times> string \<times> (string list \<Rightarrow> settings \<Rightarrow> settings)) list" where
  "example_table =
     [(''--server=(.*)'', ''address of server to connect to'', set_serverAddress),
      (''--reverseFluxPolarity'', ''operate with flux polarity reversed'', set_reverseFluxPolarity)]"

definition example_opts :: "(simple_regex, string list, settings) Opt list" where
  "example_opts = build example_table"

text \<open>A table whose two patterns both match the token \<^verbatim>\<open>--server=local\<close>.\<close>

definition overlap_opts :: "(simple_regex, string list, settings) Opt list" where
  "overlap_opts =
     build [(''--server=(.*)'', ''address of server to connect to'', set_serverAddress),
            (''--server=local'', ''connect to the local server'', set_reverseFluxPolarity)]"

text \<open>A table with a descriptor for \<^verbatim>\<open>--help\<close> itself.\<close>

definition own_help_opts :: "(simple_regex, string list, settings) Opt list" where
  "own_help_opts = build [(''--help'', ''explain the options'', set_reverseFluxPolarity)]"

definition world0 :: "(string list, settings) world" where
  "world0 = \<lparr>caller = \<lparr>serverAddress = ''localhost:10000'', reverseFluxPolarity = False\<rparr>,
             invoked = [], cout = [], cerr = []\<rparr>"

text \<open>The usage listing of \<open>example_opts\<close> for the program name \<^verbatim>\<open>prog\<close>.\<close>

definition example_usage :: string where
  "example_usage =
     ''Usage: prog'' @ endl @
     ''  --server=(.*):'' @ [CHR 0x09] @ ''address of server to connect to'' @ endl @
     ''  --reverseFluxPolarity:'' @ [CHR 0x09] @ ''operate with flux polarity reversed'' @ endl @
     endl"

text \<open>
  A table for \<open>std_regex_match\<close>, with match results that hold the whole match only.
\<close>

definition whole_token :: "rexp \<Rightarrow> string \<Rightarrow> string list" where
  "whole_token r s = [s]"

definition rexp_opts :: "(rexp, string list, settings) Opt list" where
  "rexp_opts =
     [\<lparr>opt_r = literal ''--reverseFluxPolarity'' Eps,
       opt_help = ''  --reverseFluxPolarity:'' @ [CHR 0x09] @ ''operate with flux polarity reversed'',
       opt_h = set_reverseFluxPolarity\<rparr>]"

text \<open>
  A callable that keeps a state: it counts its calls, and sets the flag. In C++:
  \<^verbatim>\<open>[&reverseFluxPolarity, n = 0](std::cmatch const&) mutable
  { ++n; reverseFluxPolarity = true; }\<close>. Both descriptors of \<open>counting_opts\<close> hold
  one, with the count at 0.
\<close>

definition count_uses :: "string list \<Rightarrow> nat \<Rightarrow> settings \<Rightarrow> nat \<times> settings" where
  "count_uses m n s = (n + 1, s\<lparr>reverseFluxPolarity := True\<rparr>)"

definition counting_opts :: "(simple_regex, string list, nat, settings) Opt_st list" where
  "counting_opts =
     [\<lparr>st_r = Literal ''--reverseFluxPolarity'',
       st_help = ''  --reverseFluxPolarity:'' @ [CHR 0x09] @ ''operate with flux polarity reversed'',
       st_h = count_uses, st_target = 0\<rparr>,
      \<lparr>st_r = Literal ''--verbose'',
       st_help = ''  --verbose:'' @ [CHR 0x09] @ ''say more'',
       st_h = count_uses, st_target = 0\<rparr>]"

section \<open>What the loops compute\<close>

lemma scan_found: "scan rm tok opts True n w = (True, w)"
  by (simp add: scan.simps)

lemma scan_from:
  "n \<le> length opts \<Longrightarrow>
   scan rm tok opts False n w =
     (case List.map_filter (\<lambda>i. map_option (Pair i) (rm tok (opt_r (opts ! i)))) [n..<length opts] of
        [] \<Rightarrow> (False, w)
      | (i, m) # _ \<Rightarrow> (True, invoke opts i m w))"
proof (induction "length opts - n" arbitrary: n)
  case 0
  then show ?case by (simp add: scan.simps)
next
  case (Suc k)
  then have lt: "n < length opts" and k: "k = length opts - Suc n" by simp_all
  show ?case
  proof (cases "rm tok (opt_r (opts ! n))")
    case None
    with lt Suc.hyps(1) [OF k] show ?thesis
      by (subst scan.simps) (simp add: upt_conv_Cons)
  next
    case (Some m)
    with lt show ?thesis
      by (subst scan.simps) (simp add: upt_conv_Cons scan_found)
  qed
qed

lemma scan_matches:
  "scan rm tok opts False 0 w =
     (case matches rm opts tok of [] \<Rightarrow> (False, w) | (i, m) # _ \<Rightarrow> (True, invoke opts i m w))"
  by (simp add: scan_from matches_def)

lemma arg_loop_run_tokens:
  "0 \<le> argi \<Longrightarrow> argc \<le> int (length argv) \<Longrightarrow>
   arg_loop rm argc argv opts argi su w =
     Some (run_tokens rm opts (take (nat (argc - argi)) (drop (nat argi) argv)) su w)"
proof (induction rm argc argv opts argi su w rule: arg_loop.induct)
  case (1 rm argc argv opts argi su w)
  show ?case
  proof (cases "argi < argc")
    case False
    then show ?thesis by (subst arg_loop.simps) simp
  next
    case True
    with "1.prems" have in_range: "nat argi < length argv" by simp
    have at: "argv_at argv argi = Some (argv ! nat argi)"
      using True "1.prems" by (simp add: argv_at_def)
    have split: "take (nat (argc - argi)) (drop (nat argi) argv) =
        argv ! nat argi # take (nat (argc - (argi + 1))) (drop (nat (argi + 1)) argv)"
    proof -
      have "drop (nat argi) argv = argv ! nat argi # drop (Suc (nat argi)) argv"
        using in_range by (simp add: Cons_nth_drop_Suc)
      moreover have "nat (argc - argi) = Suc (nat (argc - (argi + 1)))"
        using True by simp
      moreover have "nat (argi + 1) = Suc (nat argi)"
        using "1.prems" by simp
      ultimately show ?thesis by simp
    qed
    have nonneg: "0 \<le> argi + 1" using "1.prems" by simp
    show ?thesis
    proof (cases "argv ! nat argi = ''--help''")
      case True
      with \<open>argi < argc\<close> at "1.IH"(1) [OF \<open>argi < argc\<close> at True nonneg "1.prems"(2)]
      show ?thesis
        by (subst arg_loop.simps) (simp add: split)
    next
      case False
      show ?thesis
      proof (cases "matches rm opts (argv ! nat argi)")
        case Nil
        then have sc: "scan rm (argv ! nat argi) opts False 0 w = (False, w)"
          by (simp add: scan_matches)
        from "1.IH"(2) [OF \<open>argi < argc\<close> at False sc [symmetric] _ nonneg "1.prems"(2)]
        show ?thesis
          using \<open>argi < argc\<close> at False sc Nil
          by (subst arg_loop.simps) (simp add: split)
      next
        case (Cons c cs)
        obtain i m where c: "c = (i, m)" by (cases c)
        with Cons have sc: "scan rm (argv ! nat argi) opts False 0 w = (True, invoke opts i m w)"
          by (simp add: scan_matches)
        from "1.IH"(3) [OF \<open>argi < argc\<close> at False sc [symmetric] _ nonneg "1.prems"(2)]
        show ?thesis
          using \<open>argi < argc\<close> at False sc Cons c
          by (subst arg_loop.simps) (simp add: split)
      qed
    qed
  qed
qed

lemma handled_Nil [simp]: "handled rm opts [] = []"
  by (simp add: handled_def)

lemma handled_Cons:
  "handled rm opts (t # ts) =
     (if t = ''--help'' then [] else take 1 (matches rm opts t)) @ handled rm opts ts"
  by (simp add: handled_def)

lemma diagnostics_Nil [simp]: "diagnostics rm opts [] = []"
  by (simp add: diagnostics_def)

lemma diagnostics_Cons:
  "diagnostics rm opts (t # ts) =
     (if t \<noteq> ''--help'' \<and> matches rm opts t = [] then ''Unrecognised option: '' @ t @ endl else [])
       @ diagnostics rm opts ts"
  by (simp add: diagnostics_def)

lemma run_tokens_eq:
  "run_tokens rm opts ts su w =
     (su \<or> (\<exists>t \<in> set ts. t = ''--help'' \<or> matches rm opts t = []),
      w\<lparr>caller := run_handlers opts (handled rm opts ts) (caller w),
        invoked := invoked w @ handled rm opts ts,
        cerr := cerr w @ diagnostics rm opts ts\<rparr>)"
proof (induction ts arbitrary: su w)
  case Nil
  show ?case by (simp add: run_handlers_def)
next
  case (Cons t ts)
  show ?case
  proof (cases "t = ''--help''")
    case True
    then show ?thesis
      by (simp add: Cons.IH handled_Cons diagnostics_Cons)
  next
    case False
    show ?thesis
    proof (cases "matches rm opts t")
      case Nil
      with False show ?thesis
        by (simp add: Cons.IH handled_Cons diagnostics_Cons)
    next
      case (Cons c cs)
      obtain i m where c: "c = (i, m)" by (cases c)
      have "run_handlers opts ((i, m) # handled rm opts ts) (caller w) =
          run_handlers opts (handled rm opts ts) (opt_h (opts ! i) m (caller w))"
        by (simp add: run_handlers_def)
      with False Cons c show ?thesis
        by (simp add: Cons.IH handled_Cons diagnostics_Cons invoke_def)
    qed
  qed
qed

lemma foldl_cout:
  "foldl (\<lambda>w opt. w\<lparr>cout := cout w @ opt_help opt @ endl\<rparr>) w opts =
     w\<lparr>cout := cout w @ concat (map (\<lambda>opt. opt_help opt @ endl) opts)\<rparr>"
  by (induction opts arbitrary: w) simp_all

text \<open>
  The whole call in closed form, whenever \<^verbatim>\<open>argc\<close> does not exceed the number of
  strings \<^verbatim>\<open>argv\<close> holds.
\<close>

lemma parseCmdLine_eq:
  assumes "argc \<le> int (length argv)"
  shows "parseCmdLine rm argc argv opts w =
     Some (\<not> (\<exists>t \<in> set (args argc argv). t = ''--help'' \<or> matches rm opts t = []),
       w\<lparr>caller := run_handlers opts (handled rm opts (args argc argv)) (caller w),
         invoked := invoked w @ handled rm opts (args argc argv),
         cerr := cerr w @ diagnostics rm opts (args argc argv),
         cout := cout w @
           (if \<exists>t \<in> set (args argc argv). t = ''--help'' \<or> matches rm opts t = []
            then usage (hd argv) opts else [])\<rparr>)"
proof -
  have toks: "take (nat (argc - 1)) (drop (nat 1) argv) = args argc argv"
    by (simp add: args_def drop_Suc)
  have loop: "arg_loop rm argc argv opts 1 False w =
      Some (run_tokens rm opts (args argc argv) False w)"
    using arg_loop_run_tokens [of 1 argc argv rm opts False w] assms by (simp only: toks)
  show ?thesis
  proof (cases "\<exists>t \<in> set (args argc argv). t = ''--help'' \<or> matches rm opts t = []")
    case False
    then show ?thesis
      by (simp add: parseCmdLine_def loop run_tokens_eq)
  next
    case True
    then have "args argc argv \<noteq> []" by auto
    then have "argv \<noteq> []" by (auto simp: args_def)
    then have at: "argv_at argv 0 = Some (hd argv)"
      by (simp add: argv_at_def hd_conv_nth)
    from True show ?thesis
      by (simp add: parseCmdLine_def loop run_tokens_eq at foldl_cout usage_def Let_def)
  qed
qed

section \<open>Facts about the notions\<close>

lemma matches_Nil_iff:
  "matches rm opts t = [] \<longleftrightarrow> (\<forall>d \<in> set opts. rm t (opt_r d) = None)"
proof -
  have "matches rm opts t = [] \<longleftrightarrow> (\<forall>i < length opts. rm t (opt_r (opts ! i)) = None)"
    by (auto simp: matches_def map_filter_def filter_empty_conv)
  then show ?thesis
    by (simp add: all_set_conv_all_nth)
qed

lemma map_filter_mem:
  "y \<in> set (List.map_filter f xs) \<longleftrightarrow> (\<exists>x \<in> set xs. f x = Some y)"
  by (induction xs) (auto split: option.splits)

lemma matches_mem:
  "(i, m) \<in> set (matches rm opts t) \<longleftrightarrow> i < length opts \<and> rm t (opt_r (opts ! i)) = Some m"
  by (auto simp: matches_def map_filter_mem)

lemma first_from:
  "k \<le> n \<Longrightarrow>
   take 1 (List.map_filter (\<lambda>i. map_option (Pair i) (g i)) [k..<n]) = [(i, m)] \<longleftrightarrow>
     k \<le> i \<and> i < n \<and> g i = Some m \<and> (\<forall>j. k \<le> j \<and> j < i \<longrightarrow> g j = None)"
proof (induction "n - k" arbitrary: k)
  case 0
  then show ?case by simp
next
  case (Suc d)
  then have lt: "k < n" and d: "d = n - Suc k" and le: "Suc k \<le> n" by simp_all
  show ?case
  proof (cases "g k")
    case None
    have "(k \<le> i \<and> i < n \<and> g i = Some m \<and> (\<forall>j. k \<le> j \<and> j < i \<longrightarrow> g j = None)) \<longleftrightarrow>
        (Suc k \<le> i \<and> i < n \<and> g i = Some m \<and> (\<forall>j. Suc k \<le> j \<and> j < i \<longrightarrow> g j = None))"
      using None by (metis Suc_leD Suc_le_eq le_neq_implies_less option.distinct(1))
    with None lt Suc.hyps(1) [OF d le] show ?thesis
      by (simp add: upt_conv_Cons)
  next
    case (Some m')
    have "i = k" if "k \<le> i" and "\<forall>j. k \<le> j \<and> j < i \<longrightarrow> g j = None"
    proof (rule ccontr)
      assume "i \<noteq> k"
      with that(1) have "k < i" by simp
      with that(2) have "g k = None" by simp
      with Some show False by simp
    qed
    with Some lt show ?thesis
      by (auto simp: upt_conv_Cons)
  qed
qed

text \<open>
  The first entry of \<open>matches\<close> is the descriptor of least position whose pattern
  matches the token, with the results of that match.
\<close>

lemma first_match_least:
  "take 1 (matches rm opts t) = [(i, m)] \<longleftrightarrow>
     i < length opts \<and> rm t (opt_r (opts ! i)) = Some m \<and> (\<forall>j < i. rm t (opt_r (opts ! j)) = None)"
  using first_from [of 0 "length opts" "\<lambda>i. rm t (opt_r (opts ! i))" i m]
  by (simp add: matches_def)

lemma first_match_cases:
  "(take 1 (matches rm opts t) = [] \<and> (\<forall>d \<in> set opts. rm t (opt_r d) = None)) \<or>
   (\<exists>i m. take 1 (matches rm opts t) = [(i, m)] \<and> i < length opts \<and>
      rm t (opt_r (opts ! i)) = Some m \<and> (\<forall>j < i. rm t (opt_r (opts ! j)) = None))"
proof (cases "matches rm opts t")
  case Nil
  then show ?thesis by (simp add: matches_Nil_iff [symmetric])
next
  case (Cons c cs)
  obtain i m where c: "c = (i, m)" by (cases c)
  with Cons have "take 1 (matches rm opts t) = [(i, m)]" by simp
  then show ?thesis
    using first_match_least [of rm opts t i m] by blast
qed

lemma handled_mem:
  "(i, m) \<in> set (handled rm opts ts) \<Longrightarrow>
     \<exists>t \<in> set ts. t \<noteq> ''--help'' \<and> i < length opts \<and> rm t (opt_r (opts ! i)) = Some m"
  by (auto simp: handled_def matches_mem dest!: in_set_takeD)

lemma handled_no_help:
  "handled rm opts (xs @ ''--help'' # ys) = handled rm opts (xs @ ys)"
  by (simp add: handled_def)

lemma diagnostics_no_help:
  "diagnostics rm opts (xs @ ''--help'' # ys) = diagnostics rm opts (xs @ ys)"
  by (simp add: diagnostics_def)


lemma handled_all_matched:
  "\<forall>t \<in> set ts. t \<noteq> ''--help'' \<and> matches rm opts t \<noteq> [] \<Longrightarrow>
     handled rm opts ts = map (\<lambda>t. hd (matches rm opts t)) ts"
  by (induction ts) (auto simp: handled_Cons take_Suc)

lemma diagnostics_all_matched:
  "\<forall>t \<in> set ts. t \<noteq> ''--help'' \<and> matches rm opts t \<noteq> [] \<Longrightarrow> diagnostics rm opts ts = []"
  by (induction ts) (auto simp: diagnostics_Cons)

lemma args_exact: "args (int (length (prog # ts))) (prog # ts) = ts"
  by (simp add: args_def)

section \<open>Only the match of the whole token counts\<close>

lemma map_filter_cong_set:
  "(\<And>x. x \<in> set xs \<Longrightarrow> f x = g x) \<Longrightarrow> List.map_filter f xs = List.map_filter g xs"
  by (induction xs) (auto split: option.splits)

lemma matches_cong:
  assumes "\<forall>d \<in> set opts. rm t (opt_r d) = rm' t (opt_r d)"
  shows "matches rm opts t = matches rm' opts t"
  unfolding matches_def using assms by (intro map_filter_cong_set) simp

text \<open>
  The outcome of a call depends on \<^verbatim>\<open>regex_match\<close> only through what it answers for
  the argument tokens, each taken as a whole, and the patterns of the table.
\<close>

lemma parseCmdLine_cong:
  assumes "argc \<le> int (length argv)"
    and "\<forall>t \<in> set (args argc argv). \<forall>d \<in> set opts. rm t (opt_r d) = rm' t (opt_r d)"
  shows "parseCmdLine rm argc argv opts w = parseCmdLine rm' argc argv opts w"
proof -
  from assms(2) have same: "matches rm opts t = matches rm' opts t" if "t \<in> set (args argc argv)" for t
    using that by (intro matches_cong) blast
  have "handled rm opts (args argc argv) = handled rm' opts (args argc argv)"
    unfolding handled_def by (intro arg_cong [where f = concat] map_cong refl) (simp add: same)
  moreover have "diagnostics rm opts (args argc argv) = diagnostics rm' opts (args argc argv)"
    unfolding diagnostics_def
    by (intro arg_cong [where f = concat] arg_cong [where f = "map _"] filter_cong refl) (simp add: same)
  moreover have "(\<exists>t \<in> set (args argc argv). t = ''--help'' \<or> matches rm opts t = []) \<longleftrightarrow>
      (\<exists>t \<in> set (args argc argv). t = ''--help'' \<or> matches rm' opts t = [])"
    using same by auto
  ultimately show ?thesis
    using assms(1) by (simp add: parseCmdLine_eq)
qed

section \<open>Facts about the regular expressions\<close>

lemma single_split:
  assumes "\<And>u. matches_whole a u \<Longrightarrow> length u = 1"
  shows "list_ex (\<lambda>n. matches_whole a (take n s) \<and> P (drop n s)) [k..<Suc (length s)] \<longleftrightarrow>
           (\<exists>x t. s = x # t \<and> matches_whole a [x] \<and> P t \<and> k \<le> 1)"
proof
  assume "list_ex (\<lambda>n. matches_whole a (take n s) \<and> P (drop n s)) [k..<Suc (length s)]"
  then obtain n where n: "k \<le> n" "n \<le> length s" "matches_whole a (take n s)" "P (drop n s)"
    by (auto simp: list_ex_iff)
  from assms [OF n(3)] n(2) have one: "n = 1" by simp
  with n(2) obtain x t where s: "s = x # t" by (cases s) auto
  with one n show "\<exists>x t. s = x # t \<and> matches_whole a [x] \<and> P t \<and> k \<le> 1" by auto
next
  assume "\<exists>x t. s = x # t \<and> matches_whole a [x] \<and> P t \<and> k \<le> 1"
  then obtain x t where "s = x # t" "matches_whole a [x]" "P t" "k \<le> 1" by blast
  then have "1 \<in> set [k..<Suc (length s)]" and "matches_whole a (take 1 s) \<and> P (drop 1 s)"
    by (simp_all del: upt_Suc)
  then show "list_ex (\<lambda>n. matches_whole a (take n s) \<and> P (drop n s)) [k..<Suc (length s)]"
    unfolding list_ex_iff by blast
qed

text \<open>A pattern that starts with a character matches a string that starts with it.\<close>

lemma whole_Chr_Seq:
  "matches_whole (Seq (Chr c) r) s \<longleftrightarrow> (case s of [] \<Rightarrow> False | x # t \<Rightarrow> x = c \<and> matches_whole r t)"
proof -
  have "matches_whole (Seq (Chr c) r) s \<longleftrightarrow>
      (\<exists>x t. s = x # t \<and> matches_whole (Chr c) [x] \<and> matches_whole r t \<and> (0::nat) \<le> 1)"
    unfolding matches_whole.simps(4) by (rule single_split) simp
  then show ?thesis
    by (cases s) simp_all
qed

lemma matches_partI:
  "i \<le> length s \<Longrightarrow> n \<le> length s - i \<Longrightarrow> matches_whole r (take n (drop i s)) \<Longrightarrow> matches_part r s"
proof -
  assume "i \<le> length s" and "n \<le> length s - i" and "matches_whole r (take n (drop i s))"
  moreover from this have "i \<in> set [0..<Suc (length s)]" and "n \<in> set [0..<Suc (length s - i)]"
    by (simp_all del: upt_Suc)
  ultimately show ?thesis
    unfolding matches_part_def list_ex_iff by blast
qed

lemma std_regex_match_None: "std_regex_match results t r = None \<longleftrightarrow> \<not> matches_whole r t"
  by (simp add: std_regex_match_def)

lemma std_regex_match_Some:
  "std_regex_match results t r = Some m \<longleftrightarrow> matches_whole r t \<and> m = results r t"
  by (auto simp: std_regex_match_def)

section \<open>The table in the state\<close>

lemma frame_refl: "frame opts w opts w []"
  by (simp add: frame_def run_calls_st_def)

lemma frame_trans:
  assumes "frame opts w opts1 w1 cs" and "frame opts1 w1 opts2 w2 ds"
  shows "frame opts w opts2 w2 (cs @ ds)"
proof -
  from assms have len: "length opts1 = length opts"
    by (metis frame_def length_map)
  from assms len show ?thesis
    by (auto simp: frame_def run_calls_st_def)
qed

lemma frame_invoke:
  assumes "i < length opts" and "invoke_st opts i m w = (opts', w')"
  shows "frame opts w opts' w' [(i, m)]"
proof -
  obtain t' s' where h: "st_h (opts ! i) m (st_target (opts ! i)) (caller w) = (t', s')"
    by (cases "st_h (opts ! i) m (st_target (opts ! i)) (caller w)")
  with assms(2) have opts': "opts' = opts[i := (opts ! i)\<lparr>st_target := t'\<rparr>]"
    and w': "w' = w\<lparr>caller := s', invoked := invoked w @ [(i, m)]\<rparr>"
    by (simp_all add: invoke_st_def)
  have "map st_r opts' = map st_r opts" "map st_help opts' = map st_help opts"
    "map st_h opts' = map st_h opts"
    using assms(1) by (simp_all add: opts' map_update list_update_same_conv)
  moreover have "map st_target opts' = (map st_target opts)[i := t']"
    by (simp add: opts' map_update)
  ultimately show ?thesis
    using assms(1) h by (simp add: frame_def run_calls_st_def call_st_def w')
qed

lemma frame_cerr: "frame opts w opts' w' cs \<Longrightarrow> frame opts w opts' (w'\<lparr>cerr := cerr w' @ e\<rparr>) cs"
  by (auto simp: frame_def)

lemma frame_cout: "frame opts w opts' w' cs \<Longrightarrow> frame opts w opts' (w'\<lparr>cout := cout w' @ e\<rparr>) cs"
  by (auto simp: frame_def)

lemma scan_st_frame:
  "scan_st rm tok opts found n w = (f, opts', w') \<Longrightarrow> \<exists>cs. frame opts w opts' w' cs"
proof (induction rm tok opts found n w rule: scan_st.induct)
  case (1 rm tok opts found n w)
  show ?case
  proof (cases "\<not> found \<and> n < length opts")
    case False
    with "1.prems" [unfolded scan_st.simps [of rm tok opts found n w]]
    have "opts' = opts" "w' = w"
      by simp_all
    then show ?thesis using frame_refl by blast
  next
    case True
    show ?thesis
    proof (cases "rm tok (st_r (opts ! n))")
      case None
      with True "1.prems" [unfolded scan_st.simps [of rm tok opts found n w]]
      have "scan_st rm tok opts found (n + 1) w = (f, opts', w')"
        by simp
      from "1.IH"(1) [OF True None this] show ?thesis .
    next
      case (Some m)
      obtain o1 w1 where inv: "invoke_st opts n m w = (o1, w1)"
        by (cases "invoke_st opts n m w")
      with True Some "1.prems" [unfolded scan_st.simps [of rm tok opts found n w]]
      have "scan_st rm tok o1 True n w1 = (f, opts', w')"
        by simp
      from "1.IH"(2) [OF True Some inv [symmetric] this]
      obtain cs where "frame o1 w1 opts' w' cs" by blast
      with frame_invoke [OF _ inv] True show ?thesis
        using frame_trans by blast
    qed
  qed
qed

lemma arg_loop_st_frame:
  "0 \<le> argi \<Longrightarrow> argc \<le> int (length argv) \<Longrightarrow>
   \<exists>b opts' w' cs. arg_loop_st rm argc argv opts argi su w = Some (b, opts', w') \<and>
      frame opts w opts' w' cs \<and> (b \<longrightarrow> su \<or> argi < argc)"
proof (induction rm argc argv opts argi su w rule: arg_loop_st.induct)
  case (1 rm argc argv opts argi su w)
  show ?case
  proof (cases "argi < argc")
    case False
    then show ?thesis
      using frame_refl by (subst arg_loop_st.simps) auto
  next
    case True
    have at: "argv_at argv argi = Some (argv ! nat argi)"
      using True "1.prems" by (simp add: argv_at_def)
    have nonneg: "0 \<le> argi + 1" using "1.prems" by simp
    show ?thesis
    proof (cases "argv ! nat argi = ''--help''")
      case is_help: True
      from "1.IH"(1) [OF True at is_help nonneg "1.prems"(2)] True at is_help show ?thesis
        by (subst arg_loop_st.simps) auto
    next
      case False
      obtain found o1 w1 where sc: "scan_st rm (argv ! nat argi) opts False 0 w = (found, o1, w1)"
        by (cases "scan_st rm (argv ! nat argi) opts False 0 w")
      from scan_st_frame [OF sc] obtain cs where fr: "frame opts w o1 w1 cs" by blast
      show ?thesis
      proof (cases found)
        case found: True
        from "1.IH"(3) [OF True at False sc [symmetric] refl _ nonneg "1.prems"(2)] found
        obtain b opts' w' ds where
          "arg_loop_st rm argc argv o1 (argi + 1) su w1 = Some (b, opts', w')"
          "frame o1 w1 opts' w' ds" "b \<longrightarrow> su \<or> argi + 1 < argc"
          by auto
        with fr True at False sc found show ?thesis
          using frame_trans by (subst arg_loop_st.simps) fastforce
      next
        case nf: False
        let ?w = "w1\<lparr>cerr := cerr w1 @ ''Unrecognised option: '' @ argv ! nat argi @ endl\<rparr>"
        from "1.IH"(2) [OF True at False sc [symmetric] refl _ nonneg "1.prems"(2)] nf
        obtain b opts' w' ds where
          "arg_loop_st rm argc argv o1 (argi + 1) True ?w = Some (b, opts', w')"
          "frame o1 ?w opts' w' ds"
          by auto
        with frame_cerr [OF fr] True at False sc nf show ?thesis
          using frame_trans by (subst arg_loop_st.simps) fastforce
      qed
    qed
  qed
qed

lemma foldl_cout_st:
  "foldl (\<lambda>w opt. w\<lparr>cout := cout w @ st_help opt @ endl\<rparr>) w opts =
     w\<lparr>cout := cout w @ concat (map (\<lambda>opt. st_help opt @ endl) opts)\<rparr>"
  by (induction opts arbitrary: w) simp_all

lemma parseCmdLine_st_frame:
  assumes "argc \<le> int (length argv)"
  shows "\<exists>b opts' w' calls. parseCmdLine_st rm argc argv opts w = Some (b, opts', w') \<and>
           frame opts w opts' w' calls"
proof -
  from arg_loop_st_frame [of 1 argc argv rm opts False w] assms
  obtain su o1 w1 cs where loop: "arg_loop_st rm argc argv opts 1 False w = Some (su, o1, w1)"
    and fr: "frame opts w o1 w1 cs" and su: "su \<longrightarrow> 1 < argc"
    by auto
  show ?thesis
  proof (cases su)
    case False
    with loop fr show ?thesis by (auto simp: parseCmdLine_st_def)
  next
    case True
    with su assms have "argv \<noteq> []" by auto
    then have at: "argv_at argv 0 = Some (hd argv)"
      by (simp add: argv_at_def hd_conv_nth)
    from fr have "frame opts w o1
        (w1\<lparr>cout := cout w1 @
           (''Usage: '' @ hd argv @ endl @ concat (map (\<lambda>opt. st_help opt @ endl) o1) @ endl)\<rparr>) cs"
      by (rule frame_cout)
    with True loop at show ?thesis
      by (auto simp: parseCmdLine_st_def foldl_cout_st Let_def)
  qed
qed

lemma run_calls_st_other:
  "i \<notin> fst ` set calls \<Longrightarrow> snd (run_calls_st hs calls (s, ts)) ! i = ts ! i"
proof (induction calls arbitrary: s ts)
  case Nil
  show ?case by (simp add: run_calls_st_def)
next
  case (Cons c calls)
  obtain j m where c: "c = (j, m)" by (cases c)
  obtain t' s' where h: "(hs ! j) m (ts ! j) s = (t', s')" by (cases "(hs ! j) m (ts ! j) s")
  from Cons.prems c have "j \<noteq> i" and rest: "i \<notin> fst ` set calls" by auto
  have "run_calls_st hs (c # calls) (s, ts) = run_calls_st hs calls (s', ts[j := t'])"
    by (simp add: run_calls_st_def call_st_def c h)
  with Cons.IH [OF rest, of s' "ts[j := t']"] \<open>j \<noteq> i\<close> show ?case by simp
qed

subsection \<open>Callables that keep no state\<close>

lemma unit_target [simp]: "(d :: ('r, 'm, unit, 's) Opt_st)\<lparr>st_target := u\<rparr> = d"
  by (cases d) simp

lemma invoke_st_stateless:
  fixes opts :: "('r, 'm, unit, 's) Opt_st list"
  assumes "i < length opts"
  shows "invoke_st opts i m w = (opts, invoke (map stateless opts) i m w)"
  using assms by (simp add: invoke_st_def invoke_def stateless_def split: prod.splits)

lemma scan_st_stateless:
  fixes opts :: "('r, 'm, unit, 's) Opt_st list"
  shows "scan_st rm tok opts found n w =
     (case scan rm tok (map stateless opts) found n w of (f, w') \<Rightarrow> (f, opts, w'))"
proof (induction rm tok "map stateless opts" found n w rule: scan.induct)
  case (1 rm tok found n w)
  show ?case
  proof (cases "\<not> found \<and> n < length opts")
    case False
    then show ?thesis
      by (subst scan_st.simps, subst scan.simps) auto
  next
    case True
    then have r: "opt_r (map stateless opts ! n) = st_r (opts ! n)"
      by (simp add: stateless_def)
    show ?thesis
    proof (cases "rm tok (st_r (opts ! n))")
      case None
      with True r "1.hyps"(1) show ?thesis
        by (subst scan_st.simps, subst scan.simps) simp
    next
      case (Some m)
      with True r "1.hyps"(2) [of m] show ?thesis
        by (subst scan_st.simps, subst scan.simps) (simp add: invoke_st_stateless)
    qed
  qed
qed

lemma arg_loop_st_stateless:
  fixes opts :: "('r, 'm, unit, 's) Opt_st list"
  shows "arg_loop_st rm argc argv opts argi su w =
     map_option (\<lambda>(b, w'). (b, opts, w')) (arg_loop rm argc argv (map stateless opts) argi su w)"
proof (induction rm argc argv "map stateless opts" argi su w rule: arg_loop.induct)
  case (1 rm argc argv argi su w)
  show ?case
  proof (cases "argi < argc")
    case False
    then show ?thesis
      by (subst arg_loop_st.simps, subst arg_loop.simps) simp
  next
    case True
    show ?thesis
    proof (cases "argv_at argv argi")
      case None
      with True show ?thesis
        by (subst arg_loop_st.simps, subst arg_loop.simps) simp
    next
      case (Some tok)
      show ?thesis
      proof (cases "tok = ''--help''")
        case is_help: True
        with True Some "1.hyps"(1) show ?thesis
          by (subst arg_loop_st.simps, subst arg_loop.simps) simp
      next
        case False
        obtain f w1 where sc: "scan rm tok (map stateless opts) False 0 w = (f, w1)"
          by (cases "scan rm tok (map stateless opts) False 0 w")
        then have sc_st: "scan_st rm tok opts False 0 w = (f, opts, w1)"
          by (simp add: scan_st_stateless)
        show ?thesis
        proof (cases f)
          case found: True
          with True Some False sc sc_st "1.hyps"(3) [OF True Some False sc [symmetric]] show ?thesis
            by (subst arg_loop_st.simps, subst arg_loop.simps) simp
        next
          case nf: False
          with True Some False sc sc_st "1.hyps"(2) [OF True Some False sc [symmetric]] show ?thesis
            by (subst arg_loop_st.simps, subst arg_loop.simps) simp
        qed
      qed
    qed
  qed
qed

text \<open>
  With callables that keep no state the second embedding returns the table as it was
  given, and otherwise what the first embedding returns.
\<close>

lemma parseCmdLine_st_stateless:
  fixes opts :: "('r, 'm, unit, 's) Opt_st list"
  shows "parseCmdLine_st rm argc argv opts w =
     map_option (\<lambda>(b, w'). (b, opts, w')) (parseCmdLine rm argc argv (map stateless opts) w)"
  by (auto simp: parseCmdLine_st_def parseCmdLine_def arg_loop_st_stateless foldl_cout_st foldl_cout
      stateless_def comp_def Let_def split: option.splits)

section \<open>The example tables, evaluated\<close>

lemma example_opts_eq:
  "example_opts =
     [\<lparr>opt_r = Literal_Group ''--server='',
       opt_help = ''  --server=(.*):'' @ [CHR 0x09] @ ''address of server to connect to'',
       opt_h = set_serverAddress\<rparr>,
      \<lparr>opt_r = Literal ''--reverseFluxPolarity'',
       opt_help = ''  --reverseFluxPolarity:'' @ [CHR 0x09] @ ''operate with flux polarity reversed'',
       opt_h = set_reverseFluxPolarity\<rparr>]"
  by (simp add: example_opts_def example_table_def build_def Opt_def regex_simple_def)

lemma overlap_opts_eq:
  "overlap_opts =
     [\<lparr>opt_r = Literal_Group ''--server='',
       opt_help = ''  --server=(.*):'' @ [CHR 0x09] @ ''address of server to connect to'',
       opt_h = set_serverAddress\<rparr>,
      \<lparr>opt_r = Literal ''--server=local'',
       opt_help = ''  --server=local:'' @ [CHR 0x09] @ ''connect to the local server'',
       opt_h = set_reverseFluxPolarity\<rparr>]"
  by (simp add: overlap_opts_def build_def Opt_def regex_simple_def)

lemma own_help_opts_eq:
  "own_help_opts =
     [\<lparr>opt_r = Literal ''--help'',
       opt_help = ''  --help:'' @ [CHR 0x09] @ ''explain the options'',
       opt_h = set_reverseFluxPolarity\<rparr>]"
  by (simp add: own_help_opts_def build_def Opt_def regex_simple_def)

text \<open>The equations that run the model on a concrete command line.\<close>

lemmas run_simps =
  parseCmdLine_def arg_loop.simps scan.simps argv_at_def invoke_def world0_def
  set_serverAddress_def set_reverseFluxPolarity_def sub_match_def

lemmas run_st_simps =
  parseCmdLine_st_def arg_loop_st.simps scan_st.simps argv_at_def invoke_st_def world0_def
  count_uses_def counting_opts_def

section \<open>The properties\<close>

text \<open>
  Every statement below is about a call whose \<^verbatim>\<open>argc\<close> does not exceed the number of
  strings in \<^verbatim>\<open>argv\<close>, as the C++ runtime guarantees for the arguments of
  \<^verbatim>\<open>main\<close>. The argument vector of the specification, which leaves the program name
  out, is \<open>args argc argv\<close>.
\<close>

subsection \<open>C1: the return value\<close>

text \<open>
  Claim C1. \<^verbatim>\<open>parseCmdLine\<close> returns, and it returns true if and only if every argument
  token (the program name excluded) is matched by the pattern of some descriptor and no
  argument token is the literal \<^verbatim>\<open>--help\<close>; in every other case it returns false.
\<close>

theorem parseCmdLine_true_iff:
  assumes "argc \<le> int (length argv)"
  shows "\<exists>w'. parseCmdLine regex_match argc argv opts w =
           Some ((\<forall>t \<in> set (args argc argv).
                    t \<noteq> ''--help'' \<and> (\<exists>d \<in> set opts. regex_match t (opt_r d) \<noteq> None)), w')"
  using assms by (simp add: parseCmdLine_eq matches_Nil_iff)

text \<open>
  The example of the specification: both tokens match, the call returns true, the address
  is \<^verbatim>\<open>host:1\<close> and the flag is set. With a token that nothing matches it returns false.
\<close>

theorem parseCmdLine_true_iff_witness:
  "(3::int) \<le> int (length [''prog'', ''--server=host:1'', ''--reverseFluxPolarity'']) \<and>
   parseCmdLine regex_match_simple 3 [''prog'', ''--server=host:1'', ''--reverseFluxPolarity'']
       example_opts world0 =
     Some (True,
       \<lparr>caller = \<lparr>serverAddress = ''host:1'', reverseFluxPolarity = True\<rparr>,
        invoked = [(0, [''--server=host:1'', ''host:1'']), (1, [''--reverseFluxPolarity''])],
        cout = [], cerr = []\<rparr>) \<and>
   (2::int) \<le> int (length [''prog'', ''--bogus'']) \<and>
   parseCmdLine regex_match_simple 2 [''prog'', ''--bogus''] example_opts world0 =
     Some (False,
       \<lparr>caller = \<lparr>serverAddress = ''localhost:10000'', reverseFluxPolarity = False\<rparr>,
        invoked = [],
        cout = example_usage, cerr = ''Unrecognised option: --bogus'' @ endl\<rparr>)"
  using
    parseCmdLine_true_iff [where argc = 3
      and argv = "[''prog'', ''--server=host:1'', ''--reverseFluxPolarity'']"
      and regex_match = regex_match_simple and opts = example_opts and w = world0]
    parseCmdLine_true_iff [where argc = 2 and argv = "[''prog'', ''--bogus'']"
      and regex_match = regex_match_simple and opts = example_opts and w = world0]
  by (simp add: run_simps example_opts_eq example_usage_def)

subsection \<open>C2: the first matching descriptor wins\<close>

text \<open>
  Claim C2. For every token that is not the literal \<^verbatim>\<open>--help\<close> the table is scanned in
  registration order, and exactly the first descriptor whose pattern matches the token has
  its action invoked, with the results of that match; no later descriptor is invoked for
  the token, even if its pattern matches too.

  In the theorem \<open>calls\<close> holds, for each token other than \<^verbatim>\<open>--help\<close> and in argument
  order, the handler calls the token caused: none when no pattern matches it, and
  otherwise the single call of the descriptor of least position \<open>i\<close> whose pattern
  matches, with the match results \<open>m\<close>. These calls, one after the other, are all the calls
  the function makes and they produce the caller's final state.
\<close>

theorem first_match_wins:
  assumes "argc \<le> int (length argv)"
  shows "\<exists>b w' calls.
           parseCmdLine regex_match argc argv opts w = Some (b, w') \<and>
           invoked w' = invoked w @ concat calls \<and>
           caller w' = run_handlers opts (concat calls) (caller w) \<and>
           list_all2
             (\<lambda>t c. (c = [] \<and> (\<forall>d \<in> set opts. regex_match t (opt_r d) = None)) \<or>
                    (\<exists>i m. c = [(i, m)] \<and> i < length opts \<and>
                       regex_match t (opt_r (opts ! i)) = Some m \<and>
                       (\<forall>j < i. regex_match t (opt_r (opts ! j)) = None)))
             (filter (\<lambda>t. t \<noteq> ''--help'') (args argc argv)) calls"
proof -
  let ?ts = "filter (\<lambda>t. t \<noteq> ''--help'') (args argc argv)"
  let ?calls = "map (\<lambda>t. take 1 (matches regex_match opts t)) ?ts"
  let ?w' = "w\<lparr>caller := run_handlers opts (concat ?calls) (caller w),
                invoked := invoked w @ concat ?calls,
                cerr := cerr w @ diagnostics regex_match opts (args argc argv),
                cout := cout w @
                  (if \<exists>t \<in> set (args argc argv). t = ''--help'' \<or> matches regex_match opts t = []
                   then usage (hd argv) opts else [])\<rparr>"
  have calls: "handled regex_match opts (args argc argv) = concat ?calls"
    by (simp add: handled_def)
  have result: "parseCmdLine regex_match argc argv opts w =
      Some (\<not> (\<exists>t \<in> set (args argc argv). t = ''--help'' \<or> matches regex_match opts t = []), ?w')"
    using assms unfolding calls [symmetric] by (rule parseCmdLine_eq)
  have each: "list_all2
      (\<lambda>t c. (c = [] \<and> (\<forall>d \<in> set opts. regex_match t (opt_r d) = None)) \<or>
             (\<exists>i m. c = [(i, m)] \<and> i < length opts \<and>
                regex_match t (opt_r (opts ! i)) = Some m \<and>
                (\<forall>j < i. regex_match t (opt_r (opts ! j)) = None)))
      ?ts ?calls"
    unfolding list_all2_map2 list_all2_same using first_match_cases [of regex_match opts] by blast
  have "invoked ?w' = invoked w @ concat ?calls"
    and "caller ?w' = run_handlers opts (concat ?calls) (caller w)"
    by simp_all
  with result each show ?thesis by blast
qed

text \<open>
  Both patterns of \<open>overlap_opts\<close> match \<^verbatim>\<open>--server=local\<close>. Only the handler of the
  first runs: the address is set and the flag, which the second handler would set, is not.
\<close>

theorem first_match_wins_witness:
  "(2::int) \<le> int (length [''prog'', ''--server=local'']) \<and>
   regex_match_simple ''--server=local'' (opt_r (overlap_opts ! 0)) =
     Some [''--server=local'', ''local''] \<and>
   regex_match_simple ''--server=local'' (opt_r (overlap_opts ! 1)) = Some [''--server=local''] \<and>
   parseCmdLine regex_match_simple 2 [''prog'', ''--server=local''] overlap_opts world0 =
     Some (True,
       \<lparr>caller = \<lparr>serverAddress = ''local'', reverseFluxPolarity = False\<rparr>,
        invoked = [(0, [''--server=local'', ''local''])],
        cout = [], cerr = []\<rparr>)"
  using
    first_match_wins [where argc = 2 and argv = "[''prog'', ''--server=local'']"
      and regex_match = regex_match_simple and opts = overlap_opts and w = world0]
  by (simp add: run_simps overlap_opts_eq)

subsection \<open>C3: \<^verbatim>\<open>--help\<close> forces the usage listing and failure\<close>

text \<open>
  Claim C3. For every argument vector that contains the literal token \<^verbatim>\<open>--help\<close>,
  \<^verbatim>\<open>parseCmdLine\<close> returns false and prints the usage listing (once, on standard output),
  whether or not the other tokens are valid; the handlers of the other tokens that match
  are still invoked.
\<close>

theorem help_shows_usage:
  assumes "argc \<le> int (length argv)" and "''--help'' \<in> set (args argc argv)"
  shows "\<exists>w'. parseCmdLine regex_match argc argv opts w = Some (False, w') \<and>
           cout w' = cout w @ usage (hd argv) opts \<and>
           invoked w' = invoked w @ handled regex_match opts (args argc argv) \<and>
           caller w' = run_handlers opts (handled regex_match opts (args argc argv)) (caller w)"
proof -
  from assms(2) have "\<exists>t \<in> set (args argc argv). t = ''--help'' \<or> matches regex_match opts t = []"
    by blast
  with assms(1) show ?thesis
    by (simp add: parseCmdLine_eq)
qed

text \<open>
  \<^verbatim>\<open>prog --help --reverseFluxPolarity\<close>: the call fails and prints the usage listing, and
  the flag is set all the same.
\<close>

theorem help_shows_usage_witness:
  "(3::int) \<le> int (length [''prog'', ''--help'', ''--reverseFluxPolarity'']) \<and>
   ''--help'' \<in> set (args 3 [''prog'', ''--help'', ''--reverseFluxPolarity'']) \<and>
   parseCmdLine regex_match_simple 3 [''prog'', ''--help'', ''--reverseFluxPolarity'']
       example_opts world0 =
     Some (False,
       \<lparr>caller = \<lparr>serverAddress = ''localhost:10000'', reverseFluxPolarity = True\<rparr>,
        invoked = [(1, [''--reverseFluxPolarity''])],
        cout = example_usage, cerr = []\<rparr>)"
  using
    help_shows_usage [where argc = 3 and argv = "[''prog'', ''--help'', ''--reverseFluxPolarity'']"
      and regex_match = regex_match_simple and opts = example_opts and w = world0]
  by (simp add: run_simps example_opts_eq example_usage_def args_def)

subsection \<open>C4: unrecognised tokens\<close>




subsection \<open>C5: a command line of matching tokens\<close>

text \<open>
  Claim C5 says that, for every argument vector whose tokens each match some descriptor's
  pattern, the call returns true and invokes exactly the matching handler for each token.
  A table may hold a descriptor whose pattern matches \<^verbatim>\<open>--help\<close>; the token is still
  taken as the request for help: for \<^verbatim>\<open>prog --help\<close> the call returns false and the
  handler is not invoked.
\<close>

theorem matching_help_token_fails:
  "regex_match_simple ''--help'' (opt_r (own_help_opts ! 0)) = Some [''--help''] \<and>
   parseCmdLine regex_match_simple 2 [''prog'', ''--help''] own_help_opts world0 =
     Some (False,
       \<lparr>caller = \<lparr>serverAddress = ''localhost:10000'', reverseFluxPolarity = False\<rparr>,
        invoked = [],
        cout = ''Usage: prog'' @ endl @ ''  --help:'' @ [CHR 0x09] @ ''explain the options'' @ endl @ endl,
        cerr = []\<rparr>)"
  by (simp add: run_simps own_help_opts_eq)

text \<open>
  Claim C5, amended. For every argument vector whose tokens each match some descriptor's
  pattern and none of which is the literal \<^verbatim>\<open>--help\<close>, \<^verbatim>\<open>parseCmdLine\<close> returns true,
  prints nothing, and invokes exactly one handler per token, in argument order: the
  handler of the first descriptor whose pattern matches the token, with the results of
  that match.
\<close>

theorem all_matched_succeeds:
  assumes "argc \<le> int (length argv)"
    and "\<forall>t \<in> set (args argc argv).
           t \<noteq> ''--help'' \<and> (\<exists>d \<in> set opts. regex_match t (opt_r d) \<noteq> None)"
  shows "\<exists>calls.
           parseCmdLine regex_match argc argv opts w =
             Some (True, w\<lparr>caller := run_handlers opts calls (caller w), invoked := invoked w @ calls\<rparr>) \<and>
           list_all2
             (\<lambda>t (i, m). i < length opts \<and> regex_match t (opt_r (opts ! i)) = Some m \<and>
                (\<forall>j < i. regex_match t (opt_r (opts ! j)) = None))
             (args argc argv) calls"
proof -
  let ?calls = "map (\<lambda>t. hd (matches regex_match opts t)) (args argc argv)"
  from assms(2) have all: "\<forall>t \<in> set (args argc argv). t \<noteq> ''--help'' \<and> matches regex_match opts t \<noteq> []"
    by (simp add: matches_Nil_iff)
  then have "\<not> (\<exists>t \<in> set (args argc argv). t = ''--help'' \<or> matches regex_match opts t = [])"
    by blast
  with assms(1) all have "parseCmdLine regex_match argc argv opts w =
      Some (True, w\<lparr>caller := run_handlers opts ?calls (caller w), invoked := invoked w @ ?calls\<rparr>)"
    by (simp add: parseCmdLine_eq handled_all_matched diagnostics_all_matched)
  moreover have "list_all2
      (\<lambda>t (i, m). i < length opts \<and> regex_match t (opt_r (opts ! i)) = Some m \<and>
         (\<forall>j < i. regex_match t (opt_r (opts ! j)) = None))
      (args argc argv) ?calls"
    unfolding list_all2_map2 list_all2_same
  proof
    fix t assume "t \<in> set (args argc argv)"
    with all have "matches regex_match opts t \<noteq> []" by simp
    then have "take 1 (matches regex_match opts t) = [hd (matches regex_match opts t)]"
      by (cases "matches regex_match opts t") simp_all
    moreover obtain i m where first: "hd (matches regex_match opts t) = (i, m)"
      by (cases "hd (matches regex_match opts t)")
    ultimately have "take 1 (matches regex_match opts t) = [(i, m)]"
      by simp
    then have "i < length opts \<and> regex_match t (opt_r (opts ! i)) = Some m \<and>
        (\<forall>j < i. regex_match t (opt_r (opts ! j)) = None)"
      using first_match_least [of regex_match opts t i m] by blast
    with first show "case hd (matches regex_match opts t) of
        (i, m) \<Rightarrow> i < length opts \<and> regex_match t (opt_r (opts ! i)) = Some m \<and>
          (\<forall>j < i. regex_match t (opt_r (opts ! j)) = None)"
      by simp
  qed
  ultimately show ?thesis by blast
qed

text \<open>
  \<^verbatim>\<open>prog --reverseFluxPolarity --server=a\<close>: the handlers run in the order of the
  arguments, the second descriptor first.
\<close>

theorem all_matched_succeeds_witness:
  "(3::int) \<le> int (length [''prog'', ''--reverseFluxPolarity'', ''--server=a'']) \<and>
   list_all (\<lambda>t. t \<noteq> ''--help'' \<and> (\<exists>d \<in> set example_opts. regex_match_simple t (opt_r d) \<noteq> None))
     (args 3 [''prog'', ''--reverseFluxPolarity'', ''--server=a'']) \<and>
   parseCmdLine regex_match_simple 3 [''prog'', ''--reverseFluxPolarity'', ''--server=a'']
       example_opts world0 =
     Some (True,
       \<lparr>caller = \<lparr>serverAddress = ''a'', reverseFluxPolarity = True\<rparr>,
        invoked = [(1, [''--reverseFluxPolarity'']), (0, [''--server=a'', ''a''])],
        cout = [], cerr = []\<rparr>)"
  using
    all_matched_succeeds [where argc = 3
      and argv = "[''prog'', ''--reverseFluxPolarity'', ''--server=a'']"
      and regex_match = regex_match_simple and opts = example_opts and w = world0]
  by (simp add: run_simps example_opts_eq args_def)

subsection \<open>C6: the usage listing\<close>

text \<open>
  Claim C6. Whenever usage is requested, that is whenever the call returns false, the text
  printed to standard output is the line \<^verbatim>\<open>Usage: <program name>\<close>, then one line per
  descriptor in table order of the form \<^verbatim>\<open>  <pattern>:\t<help text>\<close>, then an empty
  line. The table is given by the constructor calls that built it: \<open>table\<close> holds the
  pattern, the help text and the handler of each, and every pattern compiled.
\<close>

theorem usage_format:
  assumes "map (\<lambda>(pattern, help, handler). Opt regex pattern help handler) table = map Some opts"
    and "argc \<le> int (length argv)"
    and "parseCmdLine regex_match argc argv opts w = Some (False, w')"
  shows "cout w' = cout w @ ''Usage: '' @ hd argv @ endl @
           concat (map (\<lambda>(pattern, help, handler). ''  '' @ pattern @ '':'' @ [CHR 0x09] @ help @ endl) table)
           @ endl"
proof -
  have lines: "map opt_help opts =
      map (\<lambda>(pattern, help, handler). ''  '' @ pattern @ '':'' @ [CHR 0x09] @ help) table"
    using assms(1)
  proof (induction table arbitrary: opts)
    case Nil
    then show ?case by simp
  next
    case (Cons row table)
    then obtain d ds where opts: "opts = d # ds" by (cases opts) auto
    obtain p h f where row: "row = (p, h, f)" by (cases row)
    from Cons.prems opts row have "Opt regex p h f = Some d"
      and rest: "map (\<lambda>(pattern, help, handler). Opt regex pattern help handler) table = map Some ds"
      by simp_all
    then have "opt_help d = ''  '' @ p @ '':'' @ [CHR 0x09] @ h"
      by (auto simp: Opt_def split: option.splits)
    with Cons.IH [OF rest] opts row show ?case by simp
  qed
  have "concat (map (\<lambda>opt. opt_help opt @ endl) opts) =
      concat (map (\<lambda>l. l @ endl) (map opt_help opts))"
    by (simp add: comp_def)
  also have "\<dots> = concat (map (\<lambda>(pattern, help, handler).
      ''  '' @ pattern @ '':'' @ [CHR 0x09] @ help @ endl) table)"
    by (simp add: lines comp_def split_def)
  finally have body: "concat (map (\<lambda>opt. opt_help opt @ endl) opts) =
      concat (map (\<lambda>(pattern, help, handler).
        ''  '' @ pattern @ '':'' @ [CHR 0x09] @ help @ endl) table)" .
  from assms(2,3) have "cout w' = cout w @ usage (hd argv) opts"
    by (auto simp: parseCmdLine_eq split: if_splits)
  then show ?thesis
    by (simp add: usage_def body)
qed

text \<open>
  The table of the header's usage example and \<^verbatim>\<open>prog --bogus\<close>: the listing, character
  by character.
\<close>

theorem usage_format_witness:
  "map (\<lambda>(pattern, help, handler). Opt regex_simple pattern help handler) example_table =
     map Some example_opts \<and>
   (2::int) \<le> int (length [''prog'', ''--bogus'']) \<and>
   parseCmdLine regex_match_simple 2 [''prog'', ''--bogus''] example_opts world0 =
     Some (False, world0\<lparr>cout := example_usage, cerr := ''Unrecognised option: --bogus'' @ endl\<rparr>) \<and>
   cout (world0\<lparr>cout := example_usage, cerr := ''Unrecognised option: --bogus'' @ endl\<rparr>) =
     ''Usage: prog'' @ [CHR 0x0A] @
     ''  --server=(.*):'' @ [CHR 0x09] @ ''address of server to connect to'' @ [CHR 0x0A] @
     ''  --reverseFluxPolarity:'' @ [CHR 0x09] @ ''operate with flux polarity reversed'' @ [CHR 0x0A] @
     [CHR 0x0A]"
  using
    usage_format [where regex = regex_simple and table = example_table and opts = example_opts
      and argc = 2 and argv = "[''prog'', ''--bogus'']" and regex_match = regex_match_simple
      and w = world0
      and w' = "world0\<lparr>cout := example_usage, cerr := ''Unrecognised option: --bogus'' @ endl\<rparr>"]
  by (simp add: run_simps example_opts_eq example_usage_def example_table_def Opt_def
      regex_simple_def endl_def)

subsection \<open>C7: a pattern must match the whole token\<close>

text \<open>
  Claim C7. A descriptor is considered to match a token only when its pattern matches the
  entire token, not merely a part of it; a token of which the pattern matches only a
  proper part is unmatched by that descriptor.

  Whether a pattern matches is decided by \<^verbatim>\<open>std::regex_match\<close>, which the repository
  calls and does not contain, so the claim is settled for \<open>std_regex_match\<close>, the
  function as the specification describes it, in the place of the parameter. For each
  token other than \<^verbatim>\<open>--help\<close>, in argument order, \<open>calls\<close> holds the handler calls the
  token caused: none, exactly when no pattern of the table matches the whole token, and
  otherwise the call of the first descriptor whose pattern matches the whole token. The
  call returns true just if every token is matched as a whole by some pattern. A match of
  a part of the token, \<open>matches_part\<close>, appears nowhere in this. The last part is about
  the code alone: any other matcher that answers as \<open>std_regex_match\<close> does on the whole
  tokens gives the same outcome, so the code asks about no other string than the whole
  token.
\<close>

theorem match_is_full_match:
  assumes "argc \<le> int (length argv)"
  shows "\<exists>b w' calls.
           parseCmdLine (std_regex_match results) argc argv opts w = Some (b, w') \<and>
           b = (\<forall>t \<in> set (args argc argv).
                  t \<noteq> ''--help'' \<and> (\<exists>d \<in> set opts. matches_whole (opt_r d) t)) \<and>
           invoked w' = invoked w @ concat calls \<and>
           list_all2
             (\<lambda>t c. (c = [] \<and> (\<forall>d \<in> set opts. \<not> matches_whole (opt_r d) t)) \<or>
                    (\<exists>i. c = [(i, results (opt_r (opts ! i)) t)] \<and> i < length opts \<and>
                       matches_whole (opt_r (opts ! i)) t \<and>
                       (\<forall>j < i. \<not> matches_whole (opt_r (opts ! j)) t)))
             (filter (\<lambda>t. t \<noteq> ''--help'') (args argc argv)) calls \<and>
           (\<forall>rm. (\<forall>t \<in> set (args argc argv). \<forall>d \<in> set opts.
                     rm t (opt_r d) = std_regex_match results t (opt_r d)) \<longrightarrow>
                 parseCmdLine rm argc argv opts w = Some (b, w'))"
proof -
  let ?rm = "std_regex_match results"
  let ?ts = "filter (\<lambda>t. t \<noteq> ''--help'') (args argc argv)"
  let ?calls = "map (\<lambda>t. take 1 (matches ?rm opts t)) ?ts"
  let ?failed = "\<exists>t \<in> set (args argc argv). t = ''--help'' \<or> matches ?rm opts t = []"
  let ?w' = "w\<lparr>caller := run_handlers opts (concat ?calls) (caller w),
                invoked := invoked w @ concat ?calls,
                cerr := cerr w @ diagnostics ?rm opts (args argc argv),
                cout := cout w @ (if ?failed then usage (hd argv) opts else [])\<rparr>"
  have calls: "handled ?rm opts (args argc argv) = concat ?calls"
    by (simp add: handled_def)
  have none: "matches ?rm opts t = [] \<longleftrightarrow> (\<forall>d \<in> set opts. \<not> matches_whole (opt_r d) t)" for t
    by (simp add: matches_Nil_iff std_regex_match_None)
  have each: "list_all2
      (\<lambda>t c. (c = [] \<and> (\<forall>d \<in> set opts. \<not> matches_whole (opt_r d) t)) \<or>
             (\<exists>i. c = [(i, results (opt_r (opts ! i)) t)] \<and> i < length opts \<and>
                matches_whole (opt_r (opts ! i)) t \<and>
                (\<forall>j < i. \<not> matches_whole (opt_r (opts ! j)) t)))
      ?ts ?calls"
    unfolding list_all2_map2 list_all2_same
    using first_match_cases [of ?rm opts]
    by (simp add: std_regex_match_None std_regex_match_Some)
  have "parseCmdLine ?rm argc argv opts w = Some (\<not> ?failed, ?w')"
    using assms unfolding calls [symmetric] by (rule parseCmdLine_eq)
  moreover have "(\<not> ?failed) =
      (\<forall>t \<in> set (args argc argv). t \<noteq> ''--help'' \<and> (\<exists>d \<in> set opts. matches_whole (opt_r d) t))"
    by (auto simp: none)
  ultimately have result: "parseCmdLine ?rm argc argv opts w =
      Some ((\<forall>t \<in> set (args argc argv).
               t \<noteq> ''--help'' \<and> (\<exists>d \<in> set opts. matches_whole (opt_r d) t)), ?w')"
    by (simp only:)
  have log: "invoked ?w' = invoked w @ concat ?calls"
    by simp
  have "parseCmdLine rm argc argv opts w = parseCmdLine ?rm argc argv opts w"
    if "\<forall>t \<in> set (args argc argv). \<forall>d \<in> set opts. rm t (opt_r d) = ?rm t (opt_r d)" for rm
    using assms that by (rule parseCmdLine_cong)
  with result log each show ?thesis by (metis (no_types, lifting))
qed

text \<open>
  The pattern \<^verbatim>\<open>--reverseFluxPolarity\<close> matches the first 21 characters of the token
  \<^verbatim>\<open>--reverseFluxPolarity=yes\<close>, so a part of the token, and not the whole of it: the
  token is unrecognised and no handler runs. The token \<^verbatim>\<open>--reverseFluxPolarity\<close> is
  matched as a whole, and the handler runs.
\<close>

theorem match_is_full_match_witness:
  "(2::int) \<le> int (length [''prog'', ''--reverseFluxPolarity=yes'']) \<and>
   matches_whole (opt_r (rexp_opts ! 0)) (take 21 ''--reverseFluxPolarity=yes'') \<and>
   matches_part (opt_r (rexp_opts ! 0)) ''--reverseFluxPolarity=yes'' \<and>
   \<not> matches_whole (opt_r (rexp_opts ! 0)) ''--reverseFluxPolarity=yes'' \<and>
   parseCmdLine (std_regex_match whole_token) 2 [''prog'', ''--reverseFluxPolarity=yes'']
       rexp_opts world0 =
     Some (False,
       \<lparr>caller = \<lparr>serverAddress = ''localhost:10000'', reverseFluxPolarity = False\<rparr>,
        invoked = [],
        cout = ''Usage: prog'' @ endl @
               ''  --reverseFluxPolarity:'' @ [CHR 0x09] @ ''operate with flux polarity reversed'' @ endl @
               endl,
        cerr = ''Unrecognised option: --reverseFluxPolarity=yes'' @ endl\<rparr>) \<and>
   parseCmdLine (std_regex_match whole_token) 2 [''prog'', ''--reverseFluxPolarity'']
       rexp_opts world0 =
     Some (True,
       \<lparr>caller = \<lparr>serverAddress = ''localhost:10000'', reverseFluxPolarity = True\<rparr>,
        invoked = [(0, [''--reverseFluxPolarity''])],
        cout = [], cerr = []\<rparr>)"
  using
    match_is_full_match [where argc = 2 and argv = "[''prog'', ''--reverseFluxPolarity=yes'']"
      and results = whole_token and opts = rexp_opts and w = world0]
    matches_partI [where i = 0 and n = 21 and s = "''--reverseFluxPolarity=yes''"
      and r = "opt_r (rexp_opts ! 0)"]
  by (simp add: run_simps rexp_opts_def std_regex_match_def whole_token_def literal_def whole_Chr_Seq)

subsection \<open>C8: what the call changes\<close>

text \<open>
  Claim C8 says that \<^verbatim>\<open>parseCmdLine\<close> never modifies the table it is given, every
  descriptor's pattern, help string and handler being unchanged after the call, and that
  the only state it changes is what the invoked handlers change in the state of the
  caller. A handler may keep a state of its own, and invoking it through the constant
  reference changes that state inside the table: after \<^verbatim>\<open>prog --reverseFluxPolarity\<close>
  the handler of the first descriptor of \<open>counting_opts\<close>, which held the count 0, holds
  the count 1.
\<close>

theorem stateful_handler_changes:
  "st_target (counting_opts ! 0) = 0 \<and>
   parseCmdLine_st regex_match_simple 2 [''prog'', ''--reverseFluxPolarity''] counting_opts world0 =
     Some (True,
       [\<lparr>st_r = Literal ''--reverseFluxPolarity'',
         st_help = ''  --reverseFluxPolarity:'' @ [CHR 0x09] @ ''operate with flux polarity reversed'',
         st_h = count_uses, st_target = 1\<rparr>,
        \<lparr>st_r = Literal ''--verbose'',
         st_help = ''  --verbose:'' @ [CHR 0x09] @ ''say more'',
         st_h = count_uses, st_target = 0\<rparr>],
       \<lparr>caller = \<lparr>serverAddress = ''localhost:10000'', reverseFluxPolarity = True\<rparr>,
        invoked = [(0, [''--reverseFluxPolarity''])],
        cout = [], cerr = []\<rparr>)"
  by (simp add: run_st_simps)

text \<open>
  Claim C8, amended. \<^verbatim>\<open>parseCmdLine\<close> never modifies a descriptor's pattern or help
  string, nor the code of its handler, and a descriptor whose handler is not invoked is
  unchanged after the call; the only state mutation performed is what the invoked
  handlers themselves do, to the state of the caller and to the state a handler keeps in
  itself.

  In the theorem \<open>calls\<close> are the handler calls made, in order. The table after the call
  has the patterns, help strings and handler code it had; the caller's state and the
  states the handlers keep are what these calls, one after the other, made of them;
  the calls are logged and text is appended to the two output streams. Every call is of
  a handler of the table, and a descriptor that is not called is as it was.
\<close>

theorem table_changed_by_handlers_only:
  assumes "argc \<le> int (length argv)"
  shows "\<exists>b opts' w' calls out err.
           parseCmdLine_st regex_match argc argv opts w = Some (b, opts', w') \<and>
           map st_r opts' = map st_r opts \<and>
           map st_help opts' = map st_help opts \<and>
           map st_h opts' = map st_h opts \<and>
           (caller w', map st_target opts') =
             run_calls_st (map st_h opts) calls (caller w, map st_target opts) \<and>
           invoked w' = invoked w @ calls \<and> cout w' = cout w @ out \<and> cerr w' = cerr w @ err \<and>
           (\<forall>(i, m) \<in> set calls. i < length opts) \<and>
           (\<forall>i < length opts. i \<notin> fst ` set calls \<longrightarrow> opts' ! i = opts ! i)"
proof -
  from parseCmdLine_st_frame [OF assms]
  obtain b opts' w' calls where res: "parseCmdLine_st regex_match argc argv opts w = Some (b, opts', w')"
    and fr: "frame opts w opts' w' calls"
    by blast
  from fr have fields: "map st_r opts' = map st_r opts" "map st_help opts' = map st_help opts"
    "map st_h opts' = map st_h opts"
    and run: "(caller w', map st_target opts') =
      run_calls_st (map st_h opts) calls (caller w, map st_target opts)"
    and log: "invoked w' = invoked w @ calls"
    and range: "\<forall>(i, m) \<in> set calls. i < length opts"
    by (simp_all add: frame_def list_all_iff)
  from fr obtain out err where io: "cout w' = cout w @ out" "cerr w' = cerr w @ err"
    by (auto simp: frame_def)
  from fields(1) have len: "length opts' = length opts"
    by (metis length_map)
  have same: "opts' ! i = opts ! i" if "i < length opts" and "i \<notin> fst ` set calls" for i
  proof -
    from that(1) len fields have "st_r (opts' ! i) = st_r (opts ! i)"
      "st_help (opts' ! i) = st_help (opts ! i)" "st_h (opts' ! i) = st_h (opts ! i)"
      by (metis nth_map)+
    moreover have "st_target (opts' ! i) = st_target (opts ! i)"
    proof -
      have "map st_target opts' ! i = map st_target opts ! i"
        using run_calls_st_other [OF that(2), of "map st_h opts" "caller w" "map st_target opts"]
        by (simp add: run [symmetric])
      with that(1) len show ?thesis by simp
    qed
    ultimately show ?thesis by simp
  qed
  from res fields run log io range same show ?thesis by blast
qed

text \<open>
  \<^verbatim>\<open>prog --reverseFluxPolarity --reverseFluxPolarity\<close>: the handler of the first
  descriptor is called twice and holds the count 2; the second descriptor is as it was.
\<close>

theorem table_changed_by_handlers_only_witness:
  "(3::int) \<le> int (length [''prog'', ''--reverseFluxPolarity'', ''--reverseFluxPolarity'']) \<and>
   parseCmdLine_st regex_match_simple 3 [''prog'', ''--reverseFluxPolarity'', ''--reverseFluxPolarity'']
       counting_opts world0 =
     Some (True,
       [(counting_opts ! 0)\<lparr>st_target := 2\<rparr>, counting_opts ! 1],
       \<lparr>caller = \<lparr>serverAddress = ''localhost:10000'', reverseFluxPolarity = True\<rparr>,
        invoked = [(0, [''--reverseFluxPolarity'']), (0, [''--reverseFluxPolarity''])],
        cout = [], cerr = []\<rparr>) \<and>
   run_calls_st (map st_h counting_opts)
       [(0, [''--reverseFluxPolarity'']), (0, [''--reverseFluxPolarity''])]
       (caller world0, map st_target counting_opts) =
     (\<lparr>serverAddress = ''localhost:10000'', reverseFluxPolarity = True\<rparr>, [2, 0])"
  using
    table_changed_by_handlers_only [where argc = 3
      and argv = "[''prog'', ''--reverseFluxPolarity'', ''--reverseFluxPolarity'']"
      and regex_match = regex_match_simple and opts = counting_opts and w = world0]
  by (simp add: run_st_simps run_calls_st_def call_st_def)

subsection \<open>C9: \<^verbatim>\<open>--help\<close> is never handed to a handler\<close>

text \<open>
  Claim C9. A token equal to the literal \<^verbatim>\<open>--help\<close> never causes a handler to be
  invoked, even when the pattern of some descriptor matches the string \<^verbatim>\<open>--help\<close>: the
  comparison with \<^verbatim>\<open>--help\<close> comes before the scan of the table.

  The theorem compares a command line that has the token \<^verbatim>\<open>--help\<close> at any place with
  the same command line without it, for any table and any \<^verbatim>\<open>regex_match\<close>: the
  handlers invoked, the caller's final state and standard error are the same, so the token
  contributes nothing but the request for usage.
\<close>

theorem help_token_invokes_nothing:
  "\<exists>w1 b w2.
     parseCmdLine regex_match (int (length (prog # xs @ ''--help'' # ys))) (prog # xs @ ''--help'' # ys)
         opts w = Some (False, w1) \<and>
     parseCmdLine regex_match (int (length (prog # xs @ ys))) (prog # xs @ ys) opts w = Some (b, w2) \<and>
     invoked w1 = invoked w2 \<and> caller w1 = caller w2 \<and> cerr w1 = cerr w2"
  by (simp add: parseCmdLine_eq args_exact handled_no_help diagnostics_no_help del: list.size)

text \<open>
  The table \<open>own_help_opts\<close> has a descriptor whose pattern matches \<^verbatim>\<open>--help\<close>. For
  \<^verbatim>\<open>prog --help\<close> its handler is not invoked, as for \<^verbatim>\<open>prog\<close>.
\<close>

theorem help_token_invokes_nothing_witness:
  "regex_match_simple ''--help'' (opt_r (own_help_opts ! 0)) = Some [''--help''] \<and>
   (\<exists>w1 b w2.
      parseCmdLine regex_match_simple 2 [''prog'', ''--help''] own_help_opts world0 = Some (False, w1) \<and>
      parseCmdLine regex_match_simple 1 [''prog''] own_help_opts world0 = Some (b, w2) \<and>
      invoked w1 = invoked w2 \<and> caller w1 = caller w2 \<and> cerr w1 = cerr w2) \<and>
   parseCmdLine regex_match_simple 2 [''prog'', ''--help''] own_help_opts world0 =
     Some (False,
       \<lparr>caller = \<lparr>serverAddress = ''localhost:10000'', reverseFluxPolarity = False\<rparr>,
        invoked = [],
        cout = ''Usage: prog'' @ endl @ ''  --help:'' @ [CHR 0x09] @ ''explain the options'' @ endl @ endl,
        cerr = []\<rparr>)"
  using
    help_token_invokes_nothing [where regex_match = regex_match_simple and prog = "''prog''"
      and xs = "[]" and ys = "[]" and opts = own_help_opts and w = world0]
  by (simp add: run_simps own_help_opts_eq)

subsection \<open>C10: no arguments\<close>

text \<open>
  Claim C10. For an empty argument vector (no token after the program name)
  \<^verbatim>\<open>parseCmdLine\<close> returns true, invokes no handler and prints nothing, on standard
  output or standard error, for every table, the empty one included: it returns true and
  leaves everything as it was.
\<close>

theorem no_arguments:
  assumes "argc \<le> 1"
  shows "parseCmdLine regex_match argc argv opts w = Some (True, w)"
  using assms by (simp add: parseCmdLine_def arg_loop.simps)

theorem no_arguments_witness:
  "(1::int) \<le> 1 \<and>
   parseCmdLine regex_match_simple 1 [''prog''] example_opts world0 = Some (True, world0) \<and>
   parseCmdLine regex_match_simple 1 [''prog''] (build []) world0 = Some (True, world0)"
  using
    no_arguments [where argc = 1 and regex_match = regex_match_simple and argv = "[''prog'']"
      and opts = example_opts and w = world0]
    no_arguments [where argc = 1 and regex_match = regex_match_simple and argv = "[''prog'']"
      and opts = "build []" and w = world0]
  by simp

end
